theory Spec2Isabelle
  imports Complex_Main "HOL-Library.Char_ord" "HOL-Library.List_Lexorder"
begin

section \<open>Yomi: a shallow embedding of the acquisition pipeline\<close>

text \<open>
  The development follows the Python sources \<^verbatim>\<open>yomi/core.py\<close>,
  \<^verbatim>\<open>yomi/extractors/base.py\<close>, \<^verbatim>\<open>yomi/utils/archive.py\<close> and
  \<^verbatim>\<open>yomi/utils/metadata.py\<close>. A Python string is the list of its Unicode code points,
  \<^verbatim>\<open>None\<close> is \<^term>\<open>None\<close>, and a raised exception is a value of the result type.
  Calls into libraries or into collaborators that are not part of the sources are explicit
  function parameters: the built-in \<^verbatim>\<open>float\<close>, the character classes and case
  mappings of the Unicode database (\<^verbatim>\<open>\d\<close>, \<^verbatim>\<open>str.isalnum\<close>, \<^verbatim>\<open>str.lower\<close>),
  \<^verbatim>\<open>urllib.parse.unquote\<close> and \<^verbatim>\<open>urlparse\<close>, the HTTP session, \<^verbatim>\<open>difflib\<close>, the
  image libraries, the history database and the site extractor.
\<close>

subsection \<open>Strings\<close>

type_synonym str = "int list"

text \<open>A string literal of ASCII characters, and one such character, as code points.\<close>

abbreviation asc :: "string \<Rightarrow> str" where
  "asc s \<equiv> map of_char s"

abbreviation cp :: "char \<Rightarrow> int" where
  "cp c \<equiv> of_char c"

text \<open>\<^verbatim>\<open>s.split(sep)\<close> for a one-character separator: never empty, keeps empty parts.\<close>

fun split_on :: "int \<Rightarrow> str \<Rightarrow> str list" where
  "split_on sep [] = [[]]"
| "split_on sep (c # cs) =
     (if c = sep then [] # split_on sep cs
      else (c # hd (split_on sep cs)) # tl (split_on sep cs))"

text \<open>\<^verbatim>\<open>s.startswith(p)\<close>.\<close>

definition startswith :: "str \<Rightarrow> str \<Rightarrow> bool" where
  "startswith s p = (take (length p) s = p)"

subsection \<open>The range filter (\<^verbatim>\<open>YomiCore._filter_chapters\<close>)\<close>

record chap =
  title :: str
  url :: str

text \<open>
  \<^verbatim>\<open>re.search(r'(\d+(\.\d+)?)', title)\<close>, group 1. On a \<^verbatim>\<open>str\<close> pattern the class
  \<^verbatim>\<open>\d\<close> is the set of the decimal digits of the Unicode database; it is the parameter
  \<open>digit\<close>. The search takes the leftmost position where the pattern matches, which is
  the first digit; there \<^verbatim>\<open>\d+\<close> takes the whole run of digits, and the optional group
  takes a dot followed by a run of at least one digit when there is one.
\<close>

definition match_number :: "(int \<Rightarrow> bool) \<Rightarrow> str \<Rightarrow> str" where
  "match_number digit s =
     (let ip = takeWhile digit s; rest = dropWhile digit s
      in case rest of
           [] \<Rightarrow> ip
         | c # r \<Rightarrow>
             if c = cp CHR ''.'' \<and> takeWhile digit r \<noteq> []
             then ip @ [cp CHR ''.''] @ takeWhile digit r
             else ip)"

fun re_search_number :: "(int \<Rightarrow> bool) \<Rightarrow> str \<Rightarrow> str option" where
  "re_search_number digit [] = None"
| "re_search_number digit (c # cs) =
     (if digit c then Some (match_number digit (c # cs)) else re_search_number digit cs)"

text \<open>
  The loop of \<^verbatim>\<open>_filter_chapters\<close>. The built-in \<^verbatim>\<open>float\<close> is the parameter \<open>flt\<close>
  (\<^term>\<open>None\<close> when it raises \<^verbatim>\<open>ValueError\<close>), and the comparison of floats is the
  order of the type \<open>'f\<close>, about which nothing is assumed. The result \<^term>\<open>None\<close> is an
  exception that leaves the loop.
\<close>

fun filter_loop ::
  "(int \<Rightarrow> bool) \<Rightarrow> (str \<Rightarrow> 'f::ord option) \<Rightarrow> 'f \<Rightarrow> 'f \<Rightarrow> chap list \<Rightarrow> chap list option"
where
  "filter_loop digit flt start end [] = Some []"
| "filter_loop digit flt start end (c # chs) =
     (case re_search_number digit (title c) of
        None \<Rightarrow> filter_loop digit flt start end chs
      | Some m \<Rightarrow>
          (case flt m of
             None \<Rightarrow> None
           | Some num \<Rightarrow>
               (case filter_loop digit flt start end chs of
                  None \<Rightarrow> None
                | Some filtered \<Rightarrow>
                    Some (if start \<le> num \<and> num \<le> end then c # filtered else filtered))))"

text \<open>
  \<^verbatim>\<open>_filter_chapters(chapters, range_str)\<close>: a missing or empty range returns the list;
  the bare \<^verbatim>\<open>except\<close> turns every exception of the body into the unfiltered list.
\<close>

definition filter_chapters ::
  "(int \<Rightarrow> bool) \<Rightarrow> (str \<Rightarrow> 'f::ord option) \<Rightarrow> chap list \<Rightarrow> str option \<Rightarrow> chap list"
where
  "filter_chapters digit flt chapters range_str =
     (case range_str of
        None \<Rightarrow> chapters
      | Some r \<Rightarrow>
          if r = [] then chapters
          else
            (let start_end = split_on (cp CHR ''-'') r in
             case flt (hd start_end) of
               None \<Rightarrow> chapters
             | Some start \<Rightarrow>
                 (case (if length start_end > 1 then flt (start_end ! 1) else Some start) of
                    None \<Rightarrow> chapters
                  | Some end \<Rightarrow>
                      (case filter_loop digit flt start end chapters of
                         None \<Rightarrow> chapters
                       | Some filtered \<Rightarrow> filtered))))"

text \<open>
  For the examples, which are ASCII: the ten ASCII digits in the place of \<^verbatim>\<open>\d\<close>, and
  in the place of \<^verbatim>\<open>float\<close> the value of a plain decimal numeral of ASCII digits (digits,
  or digits, a dot and digits) as a rational number, with \<^verbatim>\<open>ValueError\<close> on every other
  string. The theorems below hold for every \<open>digit\<close> and \<open>flt\<close>; these two only
  instantiate them.
\<close>

definition ascii_digit :: "int \<Rightarrow> bool" where
  "ascii_digit c = (cp CHR ''0'' \<le> c \<and> c \<le> cp CHR ''9'')"

definition digit_val :: "int \<Rightarrow> nat" where
  "digit_val c = nat (c - 48)"

definition digits_val :: "str \<Rightarrow> nat" where
  "digits_val s = foldl (\<lambda>a c. 10 * a + digit_val c) 0 s"

definition decimal_float :: "str \<Rightarrow> rat option" where
  "decimal_float s =
     (let ip = takeWhile ascii_digit s; rest = dropWhile ascii_digit s
      in if ip = [] then None
         else case rest of
                [] \<Rightarrow> Some (of_nat (digits_val ip))
              | c # fp \<Rightarrow>
                  if c = cp CHR ''.'' \<and> fp \<noteq> [] \<and> list_all ascii_digit fp
                  then Some (of_nat (digits_val ip) + of_nat (digits_val fp) / 10 ^ length fp)
                  else None)"

text \<open>
  What the specification calls a decimal number, and the first one of a title: a run of
  digits, optionally followed by a dot and a run of digits, that starts at the first digit
  of the title and cannot be extended.
\<close>

definition decimal_numeral :: "(int \<Rightarrow> bool) \<Rightarrow> str \<Rightarrow> bool" where
  "decimal_numeral digit m =
     (\<exists>ip fp. ip \<noteq> [] \<and> list_all digit ip \<and> list_all digit fp \<and>
        (m = ip \<and> fp = [] \<or> fp \<noteq> [] \<and> m = ip @ [cp CHR ''.''] @ fp))"

definition starts_with_digit :: "(int \<Rightarrow> bool) \<Rightarrow> str \<Rightarrow> bool" where
  "starts_with_digit digit s = (case s of [] \<Rightarrow> False | c # _ \<Rightarrow> digit c)"

definition first_decimal_number :: "(int \<Rightarrow> bool) \<Rightarrow> str \<Rightarrow> str \<Rightarrow> bool" where
  "first_decimal_number digit t m =
     (\<exists>pre post. t = pre @ m @ post \<and> list_all (\<lambda>c. \<not> digit c) pre \<and>
        decimal_numeral digit m \<and> \<not> starts_with_digit digit post \<and>
        (list_all digit m \<longrightarrow>
           \<not> (\<exists>rest. post = cp CHR ''.'' # rest \<and> starts_with_digit digit rest)))"

definition chapters_9_to_13 :: "chap list" where
  "chapters_9_to_13 =
     [\<lparr>title = asc ''Chapter 9'', url = asc ''u9''\<rparr>,
      \<lparr>title = asc ''Chapter 10'', url = asc ''u10''\<rparr>,
      \<lparr>title = asc ''Chapter 11'', url = asc ''u11''\<rparr>,
      \<lparr>title = asc ''Chapter 12'', url = asc ''u12''\<rparr>,
      \<lparr>title = asc ''Chapter 13'', url = asc ''u13''\<rparr>]"

text \<open>
  \<^verbatim>\<open>s.strip()\<close>: the characters removed at both ends are those for which
  \<^verbatim>\<open>str.isspace\<close> holds, the 29 white-space characters of Unicode.
\<close>

definition is_space :: "int \<Rightarrow> bool" where
  "is_space c =
     (c \<in> set [0x09, 0x0A, 0x0B, 0x0C, 0x0D, 0x1C, 0x1D, 0x1E, 0x1F, 0x20, 0x85, 0xA0,
                0x1680, 0x2000, 0x2001, 0x2002, 0x2003, 0x2004, 0x2005, 0x2006, 0x2007,
                0x2008, 0x2009, 0x200A, 0x2028, 0x2029, 0x202F, 0x205F, 0x3000])"

definition strip :: "str \<Rightarrow> str" where
  "strip s = rev (dropWhile is_space (rev (dropWhile is_space s)))"

text \<open>
  The letters \<^verbatim>\<open>A\<close> to \<^verbatim>\<open>Z\<close> lowered and every other character kept. This is
  \<^verbatim>\<open>str.lower\<close> on ASCII strings only. It is used for the tests of the sources that
  look for a file extension in a lowered string, \<^verbatim>\<open>s.lower().endswith(e)\<close> and
  \<^verbatim>\<open>e in s.lower()\<close> with \<open>e\<close> one of \<^verbatim>\<open>.jpg\<close>, \<^verbatim>\<open>.jpeg\<close>, \<^verbatim>\<open>.png\<close>,
  \<^verbatim>\<open>.webp\<close>, which it decides as \<^verbatim>\<open>str.lower\<close> does: the only characters outside
  ASCII whose lower case contains an ASCII character are U+0130 (\<^verbatim>\<open>i\<close> and a combining
  dot) and U+212A (\<^verbatim>\<open>k\<close>), and neither letter occurs in these extensions. Where the
  sources compare a whole lowered string, \<^verbatim>\<open>str.lower\<close> is a parameter.
\<close>

definition ascii_lower_char :: "int \<Rightarrow> int" where
  "ascii_lower_char c = (if cp CHR ''A'' \<le> c \<and> c \<le> cp CHR ''Z'' then c + 32 else c)"

definition ascii_lower :: "str \<Rightarrow> str" where
  "ascii_lower s = map ascii_lower_char s"

subsection \<open>The retrying fetcher (\<^verbatim>\<open>BaseExtractor.download_image\<close>)\<close>

text \<open>
  The outside world of one call. \<open>http_get n url referer\<close> is the answer to the \<open>n\<close>-th
  request of the call, sent with that \<^verbatim>\<open>Referer\<close> header: the request raises, or it
  gives a status code and a body (\<^term>\<open>None\<close> when reading \<^verbatim>\<open>response.content\<close>
  raises). \<open>store n path body\<close> is what \<^verbatim>\<open>os.path.getsize\<close> reports after the \<open>n\<close>-th
  strategy has written the body to the path, \<^term>\<open>None\<close> when opening, writing or measuring
  the file raises. \<open>urlparse\<close> gives the scheme and the network location of a URL, or
  raises \<^verbatim>\<open>ValueError\<close>.
\<close>

datatype error = ValueError | KeyError | IndexError | OSError

datatype http_reply = ConnError | Reply nat "str option"

datatype event = Get str str | Write str str

record net =
  http_get :: "nat \<Rightarrow> str \<Rightarrow> str \<Rightarrow> http_reply"
  store :: "nat \<Rightarrow> str \<Rightarrow> str \<Rightarrow> nat option"
  urlparse :: "str \<Rightarrow> (str \<times> str) option"

definition sanitize_url :: "str \<Rightarrow> str" where
  "sanitize_url u = strip u"

text \<open>
  The body of the \<^verbatim>\<open>for headers in strategies\<close> loop, for the \<open>n\<close>-th strategy: the result
  is whether the function returns \<^verbatim>\<open>True\<close> here, with the requests and writes made.
  Every other path (\<^verbatim>\<open>continue\<close>, a status other than 200, a file of size 0, an
  exception) goes on with the next strategy.
\<close>

definition attempt :: "net \<Rightarrow> nat \<Rightarrow> str \<Rightarrow> str \<Rightarrow> str \<Rightarrow> bool \<times> event list" where
  "attempt io n clean_url save_path referer =
     (case http_get io n clean_url referer of
        ConnError \<Rightarrow> (False, [Get clean_url referer])
      | Reply status content \<Rightarrow>
          if status = 200 then
            (case content of
               None \<Rightarrow> (False, [Get clean_url referer])
             | Some body \<Rightarrow>
                 if length body = 0 then (False, [Get clean_url referer])
                 else
                   (case store io n save_path body of
                      None \<Rightarrow> (False, [Get clean_url referer, Write save_path body])
                    | Some sz \<Rightarrow>
                        (sz > 0, [Get clean_url referer, Write save_path body])))
          else (False, [Get clean_url referer]))"

fun try_strategies ::
  "net \<Rightarrow> str \<Rightarrow> str \<Rightarrow> nat \<Rightarrow> str list \<Rightarrow> bool \<times> event list"
where
  "try_strategies io clean_url save_path n [] = (False, [])"
| "try_strategies io clean_url save_path n (referer # rest) =
     (case attempt io n clean_url save_path referer of
        (True, evs) \<Rightarrow> (True, evs)
      | (False, evs) \<Rightarrow>
          (case try_strategies io clean_url save_path (Suc n) rest of
             (ok, evs') \<Rightarrow> (ok, evs @ evs')))"

definition strategies :: "str option \<Rightarrow> str \<Rightarrow> str list" where
  "strategies source_chapter_url root_domain =
     [case source_chapter_url of
        None \<Rightarrow> []
      | Some h \<Rightarrow> if h \<noteq> [] then h else [],
      [],
      root_domain]"

text \<open>
  \<^verbatim>\<open>download_image(url, save_path, source_chapter_url=None)\<close>. \<^verbatim>\<open>urlparse\<close> is called
  before the loop and outside its \<^verbatim>\<open>try\<close>, so its exception leaves the function.
\<close>

definition download_image ::
  "net \<Rightarrow> str \<Rightarrow> str \<Rightarrow> str option \<Rightarrow> error + bool \<times> event list"
where
  "download_image io u save_path source_chapter_url =
     (let clean_url = sanitize_url u in
      case urlparse io clean_url of
        None \<Rightarrow> Inl ValueError
      | Some (scheme, netloc) \<Rightarrow>
          (let root_domain = scheme @ (asc ''://'') @ netloc @ (asc ''/'')
           in Inr (try_strategies io clean_url save_path 0
                     (strategies source_chapter_url root_domain))))"

text \<open>The requests among the events, as pairs of URL and \<^verbatim>\<open>Referer\<close>.\<close>

fun gets :: "event list \<Rightarrow> (str \<times> str) list" where
  "gets [] = []"
| "gets (Get u r # evs) = (u, r) # gets evs"
| "gets (Write p b # evs) = gets evs"

text \<open>
  The acceptance condition in the words of the specification: status 200, a body of
  positive length, and a file of positive size on disk after the write.
\<close>

definition accepted :: "net \<Rightarrow> nat \<Rightarrow> str \<Rightarrow> str \<Rightarrow> str \<Rightarrow> bool" where
  "accepted io n clean_url save_path referer =
     (\<exists>body sz. http_get io n clean_url referer = Reply 200 (Some body) \<and> length body > 0 \<and>
        store io n save_path body = Some sz \<and> sz > 0)"

text \<open>
  A sample of \<^verbatim>\<open>urllib.parse.urlparse\<close> for the examples: the scheme before the first
  colon when it is a valid scheme, and the network location after \<^verbatim>\<open>//\<close> up to the
  next \<^verbatim>\<open>/\<close>, \<^verbatim>\<open>?\<close> or \<^verbatim>\<open>#\<close>; unbalanced brackets raise.
\<close>

definition urlparse_sample :: "str \<Rightarrow> (str \<times> str) option" where
  "urlparse_sample u =
     (let pre = takeWhile (\<lambda>c. c \<noteq> (cp CHR '':'')) u;
          has_scheme = (length pre < length u \<and> pre \<noteq> [] \<and>
            hd pre \<in> set (asc ''abcdefghijklmnopqrstuvwxyzABCDEFGHIJKLMNOPQRSTUVWXYZ'') \<and>
            list_all (\<lambda>c. c \<in> set
              (asc ''abcdefghijklmnopqrstuvwxyzABCDEFGHIJKLMNOPQRSTUVWXYZ0123456789+-.'')) pre);
          scheme = (if has_scheme then ascii_lower pre else []);
          rest = (if has_scheme then drop (length pre + 1) u else u);
          netloc = (if startswith rest (asc ''//'')
                    then takeWhile (\<lambda>c. c \<notin> set (asc ''/?#'')) (drop 2 rest) else [])
      in if ((cp CHR ''['') \<in> set netloc) \<noteq> ((cp CHR '']'') \<in> set netloc) then None
         else Some (scheme, netloc))"

text \<open>A server that refuses every request, and a disk that stores what is written.\<close>

definition net_down :: net where
  "net_down = \<lparr>http_get = (\<lambda>n u r. ConnError), store = (\<lambda>n p b. Some (length b)),
               urlparse = urlparse_sample\<rparr>"

text \<open>
  A server with hotlink protection: it answers 403 unless the \<^verbatim>\<open>Referer\<close> is the
  root of its own site.
\<close>

definition net_hotlink :: net where
  "net_hotlink =
     \<lparr>http_get = (\<lambda>n u r. if r = (asc ''https://cdn.example.com/'') then Reply 200 (Some (asc ''JPEG''))
                           else Reply 403 (Some (asc ''denied''))),
      store = (\<lambda>n p b. Some (length b)),
      urlparse = urlparse_sample\<rparr>"

subsection \<open>Directories\<close>

text \<open>
  A directory as \<^verbatim>\<open>os.walk\<close> sees it: its files (name and content) and its
  subdirectories, each in the order in which the operating system lists them. \<open>walk\<close> is
  \<^verbatim>\<open>os.walk\<close> (top down, subdirectories in listing order); the first component is the
  path of the directory relative to the start, as a list of names.
\<close>

datatype dir = Dir (files: "(str \<times> str) list") (subdirs: "(str \<times> dir) list")






text \<open>Writing an entry into a listing, and removing one.\<close>

fun put :: "(str \<times> 'a) list \<Rightarrow> str \<Rightarrow> 'a \<Rightarrow> (str \<times> 'a) list" where
  "put [] name c = [(name, c)]"
| "put ((n, c') # fs) name c = (if n = name then (n, c) # fs else (n, c') # put fs name c)"




subsection \<open>Metadata (\<^verbatim>\<open>yomi/utils/metadata.py\<close>)\<close>






subsection \<open>The CBZ packager (\<^verbatim>\<open>create_cbz_archive\<close>)\<close>




subsection \<open>The PDF packager (\<^verbatim>\<open>create_pdf_document\<close>)\<close>











subsection \<open>What the PDF packager is expected to select\<close>







subsection \<open>The site resolver (\<^verbatim>\<open>YomiCore._resolve_target\<close>)\<close>

text \<open>
  One entry of \<^verbatim>\<open>sites.json\<close>; a key that the entry does not have is \<^term>\<open>None\<close>. The
  table is the list of its items in the order of the dictionary.
\<close>

record site =
  site_name :: "str option"
  site_type :: "str option"
  test_path :: "str option"
  base_domain :: "str option"
  url_pattern :: "str option"
  site_url :: "str option"

type_synonym sites_config = "(str \<times> site) list"

text \<open>
  The collaborators of the resolver: \<^verbatim>\<open>urllib.parse.unquote\<close> and \<^verbatim>\<open>str.lower\<close>
  (the first decodes percent escapes as UTF-8, the second follows the case mappings of the
  Unicode database), \<^verbatim>\<open>SequenceMatcher(None, a, b).ratio()\<close>, the answer of
  \<^verbatim>\<open>IntPrompt.ask\<close> to a list of options, and \<^verbatim>\<open>MirrorHunter.find_active_mirror\<close>
  (\<^term>\<open>None\<close> when the module could not be imported).
\<close>

record resolver_env =
  unquote :: "str \<Rightarrow> str"
  lower :: "str \<Rightarrow> str"
  ratio :: "str \<Rightarrow> str \<Rightarrow> rat"
  ask :: "(rat \<times> str \<times> str) list \<Rightarrow> nat"
  hunter :: "(str \<Rightarrow> str \<Rightarrow> str option) option"

text \<open>
  What a resolution does besides returning: looking a key up in the table, computing a
  similarity ratio, asking the user, asking the mirror hunter.
\<close>

datatype consult =
  Lookup str | Ratio str str | Prompt "str list" | Hunt str str

text \<open>\<^verbatim>\<open>pattern.replace("{mirror}", mirror)\<close>.\<close>

fun replace_mirror :: "str \<Rightarrow> str \<Rightarrow> str" where
  "replace_mirror mirror [] = []"
| "replace_mirror mirror (c # cs) =
     (if take 8 (c # cs) = (asc ''{mirror}'') then mirror @ replace_mirror mirror (drop 7 cs)
      else c # replace_mirror mirror cs)"

text \<open>\<^verbatim>\<open>_finalize_target(target_key)\<close>.\<close>

definition finalize_target ::
  "resolver_env \<Rightarrow> sites_config \<Rightarrow> str \<Rightarrow> (error + str option) \<times> consult list"
where
  "finalize_target env cfg target_key =
     (case map_of cfg target_key of
        None \<Rightarrow> (Inl KeyError, [Lookup target_key])
      | Some site_data \<Rightarrow>
          (let stype = (case site_type site_data of None \<Rightarrow> (asc ''static'') | Some t \<Rightarrow> t) in
           if stype = (asc ''dynamic'') \<and> hunter env \<noteq> None then
             (let tp = (case test_path site_data of None \<Rightarrow> (asc ''/'') | Some p \<Rightarrow> p) in
              case base_domain site_data of
                None \<Rightarrow> (Inl KeyError, [Lookup target_key])
              | Some bd \<Rightarrow>
                  (case hunter env of
                     None \<Rightarrow> (Inr None, [Lookup target_key])
                   | Some find_active_mirror \<Rightarrow>
                       (case find_active_mirror bd tp of
                          None \<Rightarrow> (Inr None, [Lookup target_key, Hunt bd tp])
                        | Some active_mirror \<Rightarrow>
                            if active_mirror = [] then (Inr None, [Lookup target_key, Hunt bd tp])
                            else
                              (case url_pattern site_data of
                                 Some pat \<Rightarrow>
                                   (Inr (Some (replace_mirror active_mirror pat)),
                                    [Lookup target_key, Hunt bd tp])
                               | None \<Rightarrow>
                                   (Inr (Some active_mirror), [Lookup target_key, Hunt bd tp])))))
           else
             (case site_url site_data of
                Some u \<Rightarrow> (Inr (Some u), [Lookup target_key])
              | None \<Rightarrow> (Inr None, [Lookup target_key]))))"

text \<open>
  The loop of the fuzzy search: the matches in the order of the table, or the
  \<^verbatim>\<open>KeyError\<close> of \<^verbatim>\<open>data['name']\<close>, with the ratios computed on the way.
\<close>

definition score_of :: "resolver_env \<Rightarrow> str \<Rightarrow> str \<times> site \<Rightarrow> rat" where
  "score_of env clean_input item =
     (let name_lower = lower env (case site_name (snd item) of None \<Rightarrow> [] | Some n \<Rightarrow> n);
          ratio_key = ratio env clean_input (fst item);
          ratio_name = ratio env clean_input name_lower
      in max ratio_key ratio_name * 100)"

fun fuzzy_search ::
  "resolver_env \<Rightarrow> str \<Rightarrow> sites_config \<Rightarrow>
     (error + (rat \<times> str \<times> str) list) \<times> consult list"
where
  "fuzzy_search env clean_input [] = (Inr [], [])"
| "fuzzy_search env clean_input ((key, data) # rest) =
     (let name_lower = lower env (case site_name data of None \<Rightarrow> [] | Some n \<Rightarrow> n);
          evs = [Ratio clean_input key, Ratio clean_input name_lower];
          score = score_of env clean_input (key, data)
      in if score > 40 then
           (case site_name data of
              None \<Rightarrow> (Inl KeyError, evs)
            | Some n \<Rightarrow>
                (case fuzzy_search env clean_input rest of
                   (Inl e, evs') \<Rightarrow> (Inl e, evs @ evs')
                 | (Inr matches, evs') \<Rightarrow> (Inr ((score, key, n) # matches), evs @ evs')))
         else
           (case fuzzy_search env clean_input rest of
              (r, evs') \<Rightarrow> (r, evs @ evs')))"

text \<open>
  \<^verbatim>\<open>_resolve_target(input_str)\<close>. The sort is \<^verbatim>\<open>matches.sort(key=..., reverse=True)\<close>:
  descending by score and stable. An answer of the prompt outside the options is the
  \<^verbatim>\<open>IndexError\<close> of \<^verbatim>\<open>options[selected_idx - 1]\<close>.
\<close>

definition resolve_target ::
  "resolver_env \<Rightarrow> sites_config \<Rightarrow> str \<Rightarrow> (error + str option) \<times> consult list"
where
  "resolve_target env cfg input_str =
     (if startswith input_str (asc ''http'') then (Inr (Some input_str), [])
      else
        (let clean_input = lower env (strip (unquote env input_str)) in
         if map_of cfg clean_input \<noteq> None then
           (case finalize_target env cfg clean_input of
              (r, evs) \<Rightarrow> (r, Lookup clean_input # evs))
         else
           (case fuzzy_search env clean_input cfg of
              (Inl e, evs) \<Rightarrow> (Inl e, Lookup clean_input # evs)
            | (Inr found, evs) \<Rightarrow>
                (let matches = sort_key (\<lambda>m. - fst m) found in
                 case matches of
                   [] \<Rightarrow> (Inr (Some input_str), Lookup clean_input # evs)
                 | (top_score, top_key, top_name) # _ \<Rightarrow>
                     if top_score \<ge> 80 then
                       (case finalize_target env cfg top_key of
                          (r, evs') \<Rightarrow> (r, Lookup clean_input # evs @ evs'))
                     else
                       (let options = take 5 matches;
                            shown = [Prompt (map (\<lambda>m. snd (snd m)) options)];
                            selected_idx = ask env options
                        in if selected_idx = 0
                           then (Inr None, Lookup clean_input # evs @ shown)
                           else if selected_idx > length options
                           then (Inl IndexError, Lookup clean_input # evs @ shown)
                           else
                             (case finalize_target env cfg
                                     (fst (snd (options ! (selected_idx - 1)))) of
                                (r, evs') \<Rightarrow> (r, Lookup clean_input # evs @ shown @ evs')))))))"

text \<open>
  The first step of \<^verbatim>\<open>_download_manga_async\<close>: \<^verbatim>\<open>if not url: return\<close>. The run goes
  on after the resolution when the resolver returns a string that is not empty.
\<close>

definition run_continues :: "(error + str option) \<Rightarrow> bool" where
  "run_continues r =
     (case r of Inl e \<Rightarrow> False | Inr None \<Rightarrow> False | Inr (Some u) \<Rightarrow> u \<noteq> [])"

text \<open>
  A model of \<^verbatim>\<open>difflib.SequenceMatcher(None, a, b).ratio()\<close> for the examples (no junk;
  the automatic junk heuristic starts at 200 characters): the longest matching block that
  starts earliest in \<open>a\<close> and then in \<open>b\<close>, the same to its left and to its right, and twice
  the number of matched characters over the sum of the lengths.
\<close>

fun common_prefix :: "str \<Rightarrow> str \<Rightarrow> nat" where
  "common_prefix (x # xs) (y # ys) = (if x = y then Suc (common_prefix xs ys) else 0)"
| "common_prefix _ _ = 0"

definition longer_match ::
  "str \<Rightarrow> str \<Rightarrow> nat \<times> nat \<Rightarrow> nat \<times> nat \<times> nat \<Rightarrow> nat \<times> nat \<times> nat" where
  "longer_match a b p best =
     (let k = common_prefix (drop (fst p) a) (drop (snd p) b)
      in if k > snd (snd best) then (fst p, snd p, k) else best)"

definition find_longest_match :: "str \<Rightarrow> str \<Rightarrow> nat \<times> nat \<times> nat" where
  "find_longest_match a b =
     fold (longer_match a b) (List.product [0..<length a] [0..<length b]) (0, 0, 0)"

text \<open>The block found lies inside \<open>a\<close>, which the termination of \<open>matching\<close> needs.\<close>

lemma common_prefix_le: "common_prefix xs ys \<le> length xs"
  by (induction xs ys rule: common_prefix.induct) auto

lemma fold_longer_match_bound:
  assumes "fold (longer_match a b) ps acc = (i, j, k)"
    and "snd (snd acc) = 0 \<or> fst acc + snd (snd acc) \<le> length a"
  shows "k = 0 \<or> i + k \<le> length a"
  using assms
proof (induction ps arbitrary: acc)
  case Nil
  then show ?case by auto
next
  case (Cons p ps)
  have "common_prefix (drop (fst p) a) (drop (snd p) b) \<le> length a - fst p"
    using common_prefix_le[of "drop (fst p) a" "drop (snd p) b"] by simp
  then have "snd (snd (longer_match a b p acc)) = 0 \<or>
      fst (longer_match a b p acc) + snd (snd (longer_match a b p acc)) \<le> length a"
    using Cons.prems(2) by (auto simp: longer_match_def Let_def)
  moreover have "fold (longer_match a b) ps (longer_match a b p acc) = (i, j, k)"
    using Cons.prems(1) by simp
  ultimately show ?case by (rule Cons.IH[rotated])
qed

lemma find_longest_match_bound:
  "find_longest_match a b = (i, j, k) \<Longrightarrow> k = 0 \<or> i + k \<le> length a"
  unfolding find_longest_match_def by (erule fold_longer_match_bound) simp

function matching :: "str \<Rightarrow> str \<Rightarrow> nat" where
  "matching a b =
     (case find_longest_match a b of
        (i, j, k) \<Rightarrow>
          if k = 0 then 0
          else k + matching (take i a) (take j b) + matching (drop (i + k) a) (drop (j + k) b))"
  by pat_completeness auto
termination
proof (relation "measure (\<lambda>(a, b). length a)")
  show "wf (measure (\<lambda>(a, b). length a))" by simp
next
  fix a b :: str and i y j k
  assume "(i, y) = find_longest_match a b" "(j, k) = y" "k \<noteq> 0"
  then have "find_longest_match a b = (i, j, k)" by simp
  then have "i + k \<le> length a" using find_longest_match_bound \<open>k \<noteq> 0\<close> by blast
  then show "((take i a, take j b), a, b) \<in> measure (\<lambda>(a, b). length a)"
    using \<open>k \<noteq> 0\<close> by simp
next
  fix a b :: str and i y j k
  assume "(i, y) = find_longest_match a b" "(j, k) = y" "k \<noteq> 0"
  then have "find_longest_match a b = (i, j, k)" by simp
  then have "i + k \<le> length a" using find_longest_match_bound \<open>k \<noteq> 0\<close> by blast
  then show "((drop (i + k) a, drop (j + k) b), a, b) \<in> measure (\<lambda>(a, b). length a)"
    using \<open>k \<noteq> 0\<close> by simp
qed

definition difflib_ratio :: "str \<Rightarrow> str \<Rightarrow> rat" where
  "difflib_ratio a b =
     (if length a + length b = 0 then 1
      else 2 * of_nat (matching a b) / of_nat (length a + length b))"

text \<open>
  For the examples: percent decoding of the escapes below \<^verbatim>\<open>%80\<close>, with hexadecimal
  digits in either case, every other character kept. It agrees with
  \<^verbatim>\<open>urllib.parse.unquote\<close> on the strings that have no escape from \<^verbatim>\<open>%80\<close> on, as
  \<^const>\<open>ascii_lower\<close> agrees with \<^verbatim>\<open>str.lower\<close> on ASCII strings. The theorems
  below hold for every \<open>unquote\<close> and \<open>lower\<close>.
\<close>

definition hex_val :: "int \<Rightarrow> int option" where
  "hex_val c =
     (if cp CHR ''0'' \<le> c \<and> c \<le> cp CHR ''9'' then Some (c - cp CHR ''0'')
      else if cp CHR ''a'' \<le> c \<and> c \<le> cp CHR ''f'' then Some (c - cp CHR ''a'' + 10)
      else if cp CHR ''A'' \<le> c \<and> c \<le> cp CHR ''F'' then Some (c - cp CHR ''A'' + 10)
      else None)"

fun unquote_ascii :: "str \<Rightarrow> str" where
  "unquote_ascii [] = []"
| "unquote_ascii [c] = [c]"
| "unquote_ascii [c, d] = [c, d]"
| "unquote_ascii (c # h # l # rest) =
     (if c = cp CHR ''%'' then
        (case (hex_val h, hex_val l) of
           (Some x, Some y) \<Rightarrow>
             if 16 * x + y < 128 then (16 * x + y) # unquote_ascii rest
             else c # unquote_ascii (h # l # rest)
         | _ \<Rightarrow> c # unquote_ascii (h # l # rest))
      else c # unquote_ascii (h # l # rest))"

text \<open>A table with one static site, and a user who accepts the default answer 1.\<close>

definition one_piece :: site where
  "one_piece = \<lparr>site_name = Some (asc ''One Piece''), site_type = None, test_path = None,
                base_domain = None, url_pattern = None,
                site_url = Some (asc ''https://read.example.org/manga/one-piece/'')\<rparr>"

definition env_default :: resolver_env where
  "env_default = \<lparr>unquote = unquote_ascii, lower = ascii_lower, ratio = difflib_ratio,
                   ask = (\<lambda>options. 1), hunter = None\<rparr>"

subsection \<open>The orchestrator (\<^verbatim>\<open>YomiCore._download_single_chapter\<close>)\<close>



text \<open>
  The directory at a path, if there is one, and what \<^verbatim>\<open>os.walk\<close> finds there: a
  directory that does not exist has nothing to walk.
\<close>

fun subdir_at :: "dir \<Rightarrow> str list \<Rightarrow> dir option" where
  "subdir_at d [] = Some d"
| "subdir_at (Dir fs ds) (n # p) =
     (case map_of ds n of None \<Rightarrow> None | Some sub \<Rightarrow> subdir_at sub p)"



text \<open>
  The directory at a path replaced by its image under \<open>f\<close> (nothing changes when there
  is no such directory); with it, writing a file, and \<^verbatim>\<open>shutil.rmtree\<close>, which removes
  the directory with everything below it.
\<close>

fun update_at :: "dir \<Rightarrow> str list \<Rightarrow> (dir \<Rightarrow> dir) \<Rightarrow> dir" where
  "update_at d [] f = f d"
| "update_at (Dir fs ds) (n # p) f =
     (case map_of ds n of
        None \<Rightarrow> Dir fs ds
      | Some sub \<Rightarrow> Dir fs (put ds n (update_at sub p f)))"

definition write_file :: "dir \<Rightarrow> str list \<Rightarrow> str \<Rightarrow> dir" where
  "write_file t path c =
     (if path = [] then t
      else update_at t (butlast path) (\<lambda>d. Dir (put (files d) (last path) c) (subdirs d)))"




























section \<open>Properties\<close>

subsection \<open>The range filter\<close>

lemma match_number_decimal:
  assumes "digit c"
  shows "decimal_numeral digit (match_number digit (c # cs))"
proof -
  let ?ip = "takeWhile digit (c # cs)"
  have ip: "?ip \<noteq> []" "list_all digit ?ip"
    using assms by (auto simp: list_all_iff dest: set_takeWhileD)
  show ?thesis
  proof (cases "dropWhile digit (c # cs)")
    case Nil
    then have "match_number digit (c # cs) = ?ip" by (simp add: match_number_def Let_def)
    with ip show ?thesis unfolding decimal_numeral_def
      by (intro exI[of _ ?ip] exI[of _ "[]"]) simp
  next
    case (Cons d r)
    let ?fp = "takeWhile digit r"
    have fp: "list_all digit ?fp" by (auto simp: list_all_iff dest: set_takeWhileD)
    show ?thesis
    proof (cases "d = (cp CHR ''.'') \<and> ?fp \<noteq> []")
      case True
      then have "match_number digit (c # cs) = ?ip @ [(cp CHR ''.'')] @ ?fp"
        using Cons by (simp add: match_number_def Let_def)
      with ip fp True show ?thesis unfolding decimal_numeral_def
        by (intro exI[of _ ?ip] exI[of _ ?fp]) simp
    next
      case False
      then have "match_number digit (c # cs) = ?ip"
        using Cons by (auto simp add: match_number_def Let_def)
      with ip show ?thesis unfolding decimal_numeral_def
        by (intro exI[of _ ?ip] exI[of _ "[]"]) simp
    qed
  qed
qed

lemma re_search_number_decimal:
  "re_search_number digit t = Some m \<Longrightarrow> decimal_numeral digit m"
  by (induction t) (auto simp: match_number_decimal split: if_splits)

lemma re_search_number_None:
  "re_search_number digit t = None \<longleftrightarrow> list_all (\<lambda>c. \<not> digit c) t"
  by (induction t) auto

lemma filter_loop_eq:
  assumes "\<And>m. decimal_numeral digit m \<Longrightarrow> flt m \<noteq> None"
  shows "filter_loop digit flt A B chapters =
     Some (filter (\<lambda>c. \<exists>m n. re_search_number digit (title c) = Some m \<and> flt m = Some n \<and> A \<le> n \<and> n \<le> B) chapters)"
proof (induction chapters)
  case Nil
  then show ?case by simp
next
  case (Cons ch chs)
  show ?case
  proof (cases "re_search_number digit (title ch)")
    case None
    then show ?thesis using Cons by simp
  next
    case (Some m)
    then have "flt m \<noteq> None" using assms re_search_number_decimal by blast
    then obtain n where "flt m = Some n" by auto
    then show ?thesis using Some Cons by simp
  qed
qed

lemma dot_not_digit: "\<not> ascii_digit (cp CHR ''.'')"
  by (simp add: ascii_digit_def)

lemma takeWhile_digit_empty: "takeWhile digit s = [] \<longleftrightarrow> \<not> starts_with_digit digit s"
  by (cases s) (auto simp: starts_with_digit_def)

lemma dropWhile_not_digit: "\<not> starts_with_digit digit (dropWhile digit s)"
  by (induction s) (auto simp: starts_with_digit_def)

lemma match_number_eq:
  assumes "takeWhile digit s = ip" "dropWhile digit s = rest"
  shows "match_number digit s =
     (case rest of [] \<Rightarrow> ip
      | c # r \<Rightarrow> if c = (cp CHR ''.'') \<and> takeWhile digit r \<noteq> []
                 then ip @ [(cp CHR ''.'')] @ takeWhile digit r else ip)"
  using assms by (simp add: match_number_def Let_def)

lemma match_number_split:
  "\<exists>post. s = match_number digit s @ post \<and> \<not> starts_with_digit digit post \<and>
     (list_all digit (match_number digit s) \<longrightarrow>
        \<not> (\<exists>rest. post = (cp CHR ''.'') # rest \<and> starts_with_digit digit rest))"
proof (cases "dropWhile digit s")
  case Nil
  have m: "match_number digit s = takeWhile digit s"
    using match_number_eq[OF refl Nil] by simp
  have "s = takeWhile digit s @ []" using Nil takeWhile_dropWhile_id[of digit s] by (metis)
  then show ?thesis using m by (intro exI[of _ "[]"]) (simp add: starts_with_digit_def)
next
  case (Cons d r)
  have s: "s = takeWhile digit s @ d # r"
    using Cons takeWhile_dropWhile_id[of digit s] by simp
  have nd: "\<not> digit d"
    using dropWhile_not_digit[of digit s] Cons by (simp add: starts_with_digit_def)
  show ?thesis
  proof (cases "d = (cp CHR ''.'') \<and> takeWhile digit r \<noteq> []")
    case True
    then have m: "match_number digit s = takeWhile digit s @ [(cp CHR ''.'')] @ takeWhile digit r"
      using match_number_eq[OF refl Cons] by simp
    have "s = match_number digit s @ dropWhile digit r"
      using s m True by simp
    moreover have "\<not> list_all digit (match_number digit s)"
      using m nd True by simp
    ultimately show ?thesis
      using dropWhile_not_digit[of digit r] by blast
  next
    case False
    then have m: "match_number digit s = takeWhile digit s"
      using match_number_eq[OF refl Cons] by auto
    have "\<not> (\<exists>rest. d # r = (cp CHR ''.'') # rest \<and> starts_with_digit digit rest)"
      using False by (auto simp: takeWhile_digit_empty)
    moreover have "\<not> starts_with_digit digit (d # r)" using nd by (simp add: starts_with_digit_def)
    moreover have "s = match_number digit s @ d # r" using s m by simp
    ultimately show ?thesis by blast
  qed
qed

lemma re_search_number_skip:
  "list_all (\<lambda>c. \<not> digit c) pre \<Longrightarrow> re_search_number digit (pre @ s) = re_search_number digit s"
  by (induction pre) auto

lemma match_number_run:
  assumes "m \<noteq> []" "list_all digit m" "\<not> starts_with_digit digit post"
    and "\<not> (\<exists>rest. post = (cp CHR ''.'') # rest \<and> starts_with_digit digit rest)"
  shows "match_number digit (m @ post) = m"
proof -
  have tw: "takeWhile digit post = []" using assms(3) by (simp add: takeWhile_digit_empty)
  have md: "\<And>x. x \<in> set m \<Longrightarrow> digit x" using assms(2) by (simp add: list_all_iff)
  have t: "takeWhile digit (m @ post) = m"
    using md tw by (simp add: takeWhile_append2)
  have d: "dropWhile digit (m @ post) = post"
    using md tw by (simp add: dropWhile_append2) (metis dropWhile_eq_self_iff takeWhile_eq_Nil_iff)
  show ?thesis
  proof (cases post)
    case Nil
    then show ?thesis using match_number_eq[OF t d] by simp
  next
    case (Cons c r)
    then have "\<not> (c = (cp CHR ''.'') \<and> takeWhile digit r \<noteq> [])"
      using assms(4) by (auto simp: takeWhile_digit_empty)
    then show ?thesis using match_number_eq[OF t d] Cons by auto
  qed
qed

lemma match_number_maximal:
  assumes "decimal_numeral digit m" "\<not> starts_with_digit digit post"
    and "list_all digit m \<longrightarrow> \<not> (\<exists>rest. post = (cp CHR ''.'') # rest \<and> starts_with_digit digit rest)"
  shows "match_number digit (m @ post) = m"
proof (cases "list_all digit m")
  case True
  moreover have "m \<noteq> []" using assms(1) unfolding decimal_numeral_def by auto
  ultimately show ?thesis using assms(2,3) by (intro match_number_run) auto
next
  case False
  from assms(1) obtain ip fp where ip: "ip \<noteq> []" "list_all digit ip" "list_all digit fp"
    and m: "m = ip \<and> fp = [] \<or> fp \<noteq> [] \<and> m = ip @ [(cp CHR ''.'')] @ fp"
    unfolding decimal_numeral_def by blast
  have a: "fp \<noteq> [] \<and> m = ip @ [(cp CHR ''.'')] @ fp" using m False ip(2) by auto
  have dot: "\<not> digit (cp CHR ''.'')" using a False ip by auto
  have tw: "takeWhile digit post = []" using assms(2) by (simp add: takeWhile_digit_empty)
  have ipd: "\<And>x. x \<in> set ip \<Longrightarrow> digit x" using ip(2) by (simp add: list_all_iff)
  have fpd: "\<And>x. x \<in> set fp \<Longrightarrow> digit x" using ip(3) by (simp add: list_all_iff)
  have t: "takeWhile digit (m @ post) = ip"
    using a ipd dot by (simp add: takeWhile_append2)
  have d: "dropWhile digit (m @ post) = (cp CHR ''.'') # fp @ post"
    using a ipd dot by (simp add: dropWhile_append2)
  have "takeWhile digit (fp @ post) = fp"
    using fpd tw by (simp add: takeWhile_append2)
  then show ?thesis using match_number_eq[OF t d] a by simp
qed

lemma decimal_numeral_starts: "decimal_numeral digit m \<Longrightarrow> \<exists>c cs. m = c # cs \<and> digit c"
  unfolding decimal_numeral_def by (auto simp: neq_Nil_conv)

lemma re_search_number_first:
  "re_search_number digit t = Some m \<longleftrightarrow> first_decimal_number digit t m"
proof
  assume "re_search_number digit t = Some m"
  then show "first_decimal_number digit t m"
  proof (induction t)
    case Nil
    then show ?case by simp
  next
    case (Cons c cs)
    show ?case
    proof (cases "digit c")
      case True
      then have m: "m = match_number digit (c # cs)" using Cons.prems by simp
      obtain post where "c # cs = m @ post" "\<not> starts_with_digit digit post"
        "list_all digit m \<longrightarrow> \<not> (\<exists>rest. post = (cp CHR ''.'') # rest \<and> starts_with_digit digit rest)"
        using match_number_split[of "c # cs" digit] m by blast
      moreover have "decimal_numeral digit m" using m True by (simp add: match_number_decimal)
      ultimately show ?thesis unfolding first_decimal_number_def
        by (intro exI[of _ "[]"] exI[of _ post]) simp
    next
      case False
      then have "re_search_number digit cs = Some m" using Cons.prems by simp
      then have "first_decimal_number digit cs m" by (rule Cons.IH)
      then obtain pre post where "cs = pre @ m @ post" "list_all (\<lambda>c. \<not> digit c) pre"
        "decimal_numeral digit m" "\<not> starts_with_digit digit post"
        "list_all digit m \<longrightarrow> \<not> (\<exists>rest. post = (cp CHR ''.'') # rest \<and> starts_with_digit digit rest)"
        unfolding first_decimal_number_def by blast
      then show ?thesis using False unfolding first_decimal_number_def
        by (intro exI[of _ "c # pre"] exI[of _ post]) simp
    qed
  qed
next
  assume "first_decimal_number digit t m"
  then obtain pre post where t: "t = pre @ m @ post" and pre: "list_all (\<lambda>c. \<not> digit c) pre"
    and dm: "decimal_numeral digit m" and mx: "\<not> starts_with_digit digit post"
    "list_all digit m \<longrightarrow> \<not> (\<exists>rest. post = (cp CHR ''.'') # rest \<and> starts_with_digit digit rest)"
    unfolding first_decimal_number_def by blast
  from dm obtain c cs where m: "m = c # cs" "digit c" using decimal_numeral_starts by blast
  have "re_search_number digit t = re_search_number digit (m @ post)"
    using t pre by (simp add: re_search_number_skip)
  also have "\<dots> = Some (match_number digit (m @ post))" using m by simp
  also have "\<dots> = Some m" using match_number_maximal[OF dm mx] by simp
  finally show "re_search_number digit t = Some m" .
qed

lemma decimal_float_eq:
  assumes "takeWhile ascii_digit s = ip" "dropWhile ascii_digit s = rest"
  shows "decimal_float s =
     (if ip = [] then None
      else case rest of
             [] \<Rightarrow> Some (of_nat (digits_val ip))
           | c # fp \<Rightarrow>
               if c = (cp CHR ''.'') \<and> fp \<noteq> [] \<and> list_all ascii_digit fp
               then Some (of_nat (digits_val ip) + of_nat (digits_val fp) / 10 ^ length fp)
               else None)"
  using assms by (simp add: decimal_float_def Let_def)

lemma decimal_float_total: "decimal_numeral ascii_digit m \<Longrightarrow> decimal_float m \<noteq> None"
proof -
  assume "decimal_numeral ascii_digit m"
  then obtain ip fp where ip: "ip \<noteq> []" "list_all ascii_digit ip" "list_all ascii_digit fp"
    and m: "m = ip \<and> fp = [] \<or> fp \<noteq> [] \<and> m = ip @ [(cp CHR ''.'')] @ fp"
    unfolding decimal_numeral_def by blast
  have ipd: "\<And>x. x \<in> set ip \<Longrightarrow> ascii_digit x" using ip(2) by (simp add: list_all_iff)
  from m show ?thesis
  proof
    assume a: "m = ip \<and> fp = []"
    then have "takeWhile ascii_digit m = ip" "dropWhile ascii_digit m = []"
      using ipd by simp_all
    from decimal_float_eq[OF this] show ?thesis using ip(1) by simp
  next
    assume a: "fp \<noteq> [] \<and> m = ip @ [(cp CHR ''.'')] @ fp"
    then have "takeWhile ascii_digit m = ip" "dropWhile ascii_digit m = (cp CHR ''.'') # fp"
      using ipd dot_not_digit by (simp_all add: takeWhile_append2 dropWhile_append2)
    from decimal_float_eq[OF this] show ?thesis using ip a by simp
  qed
qed

text \<open>
  Claim C9. A range string whose first dash-separated part does not parse as a float, or
  which has a second part that does not parse, leaves the chapter list as it was: the
  exception is caught inside \<^verbatim>\<open>_filter_chapters\<close> and the unfiltered list is returned.
\<close>

theorem filter_chapters_malformed:
  assumes "flt (hd (split_on (cp CHR ''-'') r)) = None \<or>
           (length (split_on (cp CHR ''-'') r) > 1 \<and> flt (split_on (cp CHR ''-'') r ! 1) = None)"
  shows "filter_chapters digit flt chapters (Some r) = chapters"
  using assms by (auto simp: filter_chapters_def Let_def split: option.splits)

theorem filter_chapters_malformed_witness:
  "decimal_float (hd (split_on (cp CHR ''-'') (asc ''abc''))) = None \<and>
   filter_chapters ascii_digit decimal_float chapters_9_to_13 (Some (asc ''abc'')) = chapters_9_to_13"
proof -
  have h: "decimal_float (hd (split_on (cp CHR ''-'') (asc ''abc''))) = None"
    by (simp add: decimal_float_def ascii_digit_def)
  have "filter_chapters ascii_digit decimal_float chapters_9_to_13 (Some (asc ''abc'')) =
      chapters_9_to_13"
    by (rule filter_chapters_malformed) (use h in simp)
  with h show ?thesis by simp
qed

text \<open>
  Claim C3. For a range string whose first part parses to \<open>A\<close> and whose second part,
  when there is one, parses to \<open>B\<close> (and \<open>B = A\<close> for a single value), the filter returns,
  in their order, exactly the chapters whose title has a first decimal number \<open>n\<close> with
  \<open>A \<le> n \<le> B\<close>; a chapter whose title has no digit is left out. The digits are those of
  the class \<^verbatim>\<open>\d\<close>, whatever that class is, and the built-in \<^verbatim>\<open>float\<close> is any
  function that parses every decimal numeral written with these digits.
\<close>

theorem filter_chapters_range:
  assumes "r \<noteq> []"
    and "split_on (cp CHR ''-'') r = a # rest"
    and "flt a = Some A"
    and "case rest of [] \<Rightarrow> B = A | b # _ \<Rightarrow> flt b = Some B"
    and "\<And>m. decimal_numeral digit m \<Longrightarrow> flt m \<noteq> None"
  shows "filter_chapters digit flt chapters (Some r) =
           filter (\<lambda>c. \<exists>m n. first_decimal_number digit (title c) m \<and> flt m = Some n \<and>
                      A \<le> n \<and> n \<le> B) chapters
         \<and> (\<forall>c \<in> set (filter_chapters digit flt chapters (Some r)). \<exists>d \<in> set (title c). digit d)"
proof -
  have e: "(if length (a # rest) > 1 then flt ((a # rest) ! 1) else Some A) = Some B"
    using assms(4) by (cases rest) auto
  have "filter_chapters digit flt chapters (Some r) =
          filter (\<lambda>c. \<exists>m n. re_search_number digit (title c) = Some m \<and> flt m = Some n \<and>
                      A \<le> n \<and> n \<le> B) chapters"
    using assms(1,2,3) e filter_loop_eq[of digit flt A B chapters, OF assms(5)]
    by (simp add: filter_chapters_def)
  then have 1: "filter_chapters digit flt chapters (Some r) =
           filter (\<lambda>c. \<exists>m n. first_decimal_number digit (title c) m \<and> flt m = Some n \<and>
                      A \<le> n \<and> n \<le> B) chapters"
    by (simp add: re_search_number_first)
  have "\<exists>d \<in> set (title c). digit d" if "first_decimal_number digit (title c) m" for c m
  proof -
    from that have "re_search_number digit (title c) \<noteq> None"
      by (simp flip: re_search_number_first)
    then show ?thesis by (auto simp: re_search_number_None list_all_iff)
  qed
  with 1 show ?thesis by auto
qed

text \<open>
  The range \<^verbatim>\<open>10-12\<close> over the chapters 9 to 13.
\<close>

theorem filter_chapters_range_witness:
  "filter_chapters ascii_digit decimal_float chapters_9_to_13 (Some (asc ''10-12'')) =
     filter (\<lambda>c. \<exists>m n. first_decimal_number ascii_digit (title c) m \<and> decimal_float m = Some n \<and>
                10 \<le> n \<and> n \<le> 12) chapters_9_to_13
   \<and> filter_chapters ascii_digit decimal_float chapters_9_to_13 (Some (asc ''10-12'')) =
     [\<lparr>title = asc ''Chapter 10'', url = asc ''u10''\<rparr>,
      \<lparr>title = asc ''Chapter 11'', url = asc ''u11''\<rparr>,
      \<lparr>title = asc ''Chapter 12'', url = asc ''u12''\<rparr>]"
proof -
  have s: "split_on (cp CHR ''-'') (asc ''10-12'') = asc ''10'' # [asc ''12'']" by simp
  have a: "decimal_float (asc ''10'') = Some 10"
    by (simp add: decimal_float_def ascii_digit_def digits_val_def digit_val_def)
  have b: "case [asc ''12''] of [] \<Rightarrow> (12::rat) = 10 | b # _ \<Rightarrow> decimal_float b = Some 12"
    by (simp add: decimal_float_def ascii_digit_def digits_val_def digit_val_def)
  have "filter_chapters ascii_digit decimal_float chapters_9_to_13 (Some (asc ''10-12'')) =
     filter (\<lambda>c. \<exists>m n. first_decimal_number ascii_digit (title c) m \<and> decimal_float m = Some n \<and>
                10 \<le> n \<and> n \<le> 12) chapters_9_to_13"
    using filter_chapters_range[OF _ s a b decimal_float_total, where chapters = chapters_9_to_13] by simp
  moreover have "filter_chapters ascii_digit decimal_float chapters_9_to_13 (Some (asc ''10-12'')) =
     [\<lparr>title = asc ''Chapter 10'', url = asc ''u10''\<rparr>,
      \<lparr>title = asc ''Chapter 11'', url = asc ''u11''\<rparr>,
      \<lparr>title = asc ''Chapter 12'', url = asc ''u12''\<rparr>]"
    by (simp add: filter_chapters_def chapters_9_to_13_def decimal_float_def match_number_def
        ascii_digit_def digits_val_def digit_val_def)
  ultimately show ?thesis by simp
qed

subsection \<open>The retrying fetcher\<close>

lemma attempt_fst: "fst (attempt io n u p r) = accepted io n u p r"
  by (auto simp: attempt_def accepted_def split: http_reply.splits option.splits)

lemma attempt_gets: "gets (snd (attempt io n u p r)) = [(u, r)]"
  by (auto simp: attempt_def split: http_reply.splits option.splits)

lemma gets_append: "gets (xs @ ys) = gets xs @ gets ys"
  by (induction xs rule: gets.induct) auto

lemma try_strategies_spec:
  "try_strategies io u p n refs = (ok, evs) \<Longrightarrow>
     (if ok
      then \<exists>k<length refs. accepted io (n + k) u p (refs ! k) \<and>
             (\<forall>j<k. \<not> accepted io (n + j) u p (refs ! j)) \<and>
             gets evs = map (Pair u) (take (Suc k) refs)
      else gets evs = map (Pair u) refs \<and>
           (\<forall>k<length refs. \<not> accepted io (n + k) u p (refs ! k)))"
proof (induction refs arbitrary: n ok evs)
  case Nil
  then show ?case by auto
next
  case (Cons r rest)
  obtain a ev where at: "attempt io n u p r = (a, ev)" by (cases "attempt io n u p r")
  have acc: "accepted io n u p r = a" and g: "gets ev = [(u, r)]"
    using attempt_fst[of io n u p r] attempt_gets[of io n u p r] at by simp_all
  show ?case
  proof (cases a)
    case True
    then have "ok" "evs = ev" using Cons.prems at by simp_all
    then show ?thesis using acc g True by (auto intro!: exI[of _ 0])
  next
    case False
    obtain ok' evs' where tr: "try_strategies io u p (Suc n) rest = (ok', evs')"
      by (cases "try_strategies io u p (Suc n) rest")
    then have eq: "ok = ok'" "evs = ev @ evs'" using Cons.prems at False by simp_all
    note ih = Cons.IH[OF tr]
    have ge: "gets evs = (u, r) # gets evs'" using eq g by (simp add: gets_append)
    have na: "\<not> accepted io n u p r" using acc False by simp
    show ?thesis
    proof (cases ok')
      case True
      then obtain k where k: "k < length rest" "accepted io (Suc n + k) u p (rest ! k)"
        "\<forall>j<k. \<not> accepted io (Suc n + j) u p (rest ! j)"
        "gets evs' = map (Pair u) (take (Suc k) rest)"
        using ih by auto
      have "\<forall>j<Suc k. \<not> accepted io (n + j) u p ((r # rest) ! j)"
      proof (intro allI impI)
        fix j assume "j < Suc k"
        then show "\<not> accepted io (n + j) u p ((r # rest) ! j)"
          using na k(3) by (cases j) auto
      qed
      moreover have "accepted io (n + Suc k) u p ((r # rest) ! Suc k)" using k(2) by simp
      moreover have "gets evs = map (Pair u) (take (Suc (Suc k)) (r # rest))"
        using ge k(4) by simp
      moreover have "Suc k < length (r # rest)" using k(1) by simp
      ultimately show ?thesis using True eq by (auto simp del: take_Suc_Cons nth_Cons_Suc)
    next
      case False
      then have f: "gets evs' = map (Pair u) rest"
        "\<forall>k<length rest. \<not> accepted io (Suc n + k) u p (rest ! k)"
        using ih by auto
      have "\<forall>k<length (r # rest). \<not> accepted io (n + k) u p ((r # rest) ! k)"
      proof (intro allI impI)
        fix k assume "k < length (r # rest)"
        then show "\<not> accepted io (n + k) u p ((r # rest) ! k)"
          using na f(2) by (cases k) auto
      qed
      then show ?thesis using False eq ge f(1) by simp
    qed
  qed
qed


lemma strategies_simps:
  "strategies hint rd = [case hint of None \<Rightarrow> [] | Some h \<Rightarrow> h, [], rd]"
  by (simp add: strategies_def split: option.splits)

text \<open>
  Claim C1, as amended. When \<^verbatim>\<open>urlparse\<close> does not raise, \<^verbatim>\<open>download_image\<close> returns a
  boolean. The strategies are, in this order, the referer hint (the empty string when the
  hint is absent or empty), the empty string, and \<^verbatim>\<open>scheme://netloc/\<close> of the stripped
  URL. It returns \<^verbatim>\<open>False\<close> only after one request for each of the three, none of them
  accepted; it returns \<^verbatim>\<open>True\<close> at the first strategy whose answer is accepted (status
  200, a body that is not empty, a file that is not empty after the write), having sent
  the requests up to that strategy and no further one. The three header values are
  pairwise distinct exactly when the hint is present, not empty and not the root itself.
\<close>

theorem download_image_strategies:
  assumes "urlparse io (sanitize_url u) = Some (scheme, netloc)"
  shows "\<exists>ok evs. download_image io u save_path hint = Inr (ok, evs) \<and>
     (let clean_url = sanitize_url u;
          root_domain = scheme @ (asc ''://'') @ netloc @ (asc ''/'');
          refs = [case hint of None \<Rightarrow> [] | Some h \<Rightarrow> h, [], root_domain]
      in (if ok
          then \<exists>k<3. accepted io k clean_url save_path (refs ! k) \<and>
                 (\<forall>j<k. \<not> accepted io j clean_url save_path (refs ! j)) \<and>
                 gets evs = map (Pair clean_url) (take (Suc k) refs)
          else gets evs = map (Pair clean_url) refs \<and>
               (\<forall>k<3. \<not> accepted io k clean_url save_path (refs ! k))) \<and>
         (distinct refs \<longleftrightarrow> hint \<noteq> None \<and> hint \<noteq> Some [] \<and> hint \<noteq> Some root_domain))"
proof -
  define clean_url where "clean_url = sanitize_url u"
  define root_domain where "root_domain = scheme @ (asc ''://'') @ netloc @ (asc ''/'')"
  define refs where "refs = [case hint of None \<Rightarrow> [] | Some h \<Rightarrow> h, [], root_domain]"
  obtain ok evs where tr: "try_strategies io clean_url save_path 0 refs = (ok, evs)"
    by (cases "try_strategies io clean_url save_path 0 refs")
  have d: "download_image io u save_path hint = Inr (ok, evs)"
    using assms tr
    by (simp add: download_image_def strategies_simps clean_url_def root_domain_def refs_def)
  have l: "length refs = 3" by (simp add: refs_def)
  have spec: "if ok
      then \<exists>k<3. accepted io k clean_url save_path (refs ! k) \<and>
             (\<forall>j<k. \<not> accepted io j clean_url save_path (refs ! j)) \<and>
             gets evs = map (Pair clean_url) (take (Suc k) refs)
      else gets evs = map (Pair clean_url) refs \<and>
           (\<forall>k<3. \<not> accepted io k clean_url save_path (refs ! k))"
    using try_strategies_spec[OF tr] unfolding l add_0 .
  have root: "root_domain \<noteq> []" by (simp add: root_domain_def)
  have dist: "distinct refs \<longleftrightarrow>
      hint \<noteq> None \<and> hint \<noteq> Some [] \<and> hint \<noteq> Some root_domain"
    using root by (cases hint) (auto simp: refs_def)
  show ?thesis
    using d spec dist unfolding Let_def clean_url_def[symmetric] root_domain_def[symmetric]
      refs_def[symmetric] by blast
qed

lemma sample_url:
  "urlparse_sample (asc ''https://cdn.example.com/p/001.jpg'') = Some ((asc ''https''), (asc ''cdn.example.com''))"
  by (simp add: urlparse_sample_def startswith_def ascii_lower_def ascii_lower_char_def)

lemma sample_clean_url:
  "sanitize_url (asc '' https://cdn.example.com/p/001.jpg'') = (asc ''https://cdn.example.com/p/001.jpg'')"
  "sanitize_url (asc ''https://cdn.example.com/p/001.jpg'') = (asc ''https://cdn.example.com/p/001.jpg'')"
  by (simp_all add: sanitize_url_def strip_def is_space_def)

theorem download_image_strategies_witness:
  "urlparse net_hotlink (sanitize_url (asc '' https://cdn.example.com/p/001.jpg'')) =
     Some ((asc ''https''), (asc ''cdn.example.com''))
   \<and> (\<exists>ok evs. download_image net_hotlink (asc '' https://cdn.example.com/p/001.jpg'') (asc ''001.jpg'')
          (Some (asc ''https://manga.example.org/ch1'')) = Inr (ok, evs) \<and>
     (let clean_url = sanitize_url (asc '' https://cdn.example.com/p/001.jpg'');
          root_domain = (asc ''https'') @ (asc ''://'') @ (asc ''cdn.example.com'') @ (asc ''/'');
          refs = [case Some (asc ''https://manga.example.org/ch1'') of None \<Rightarrow> [] | Some h \<Rightarrow> h,
                  [], root_domain]
      in (if ok
          then \<exists>k<3. accepted net_hotlink k clean_url (asc ''001.jpg'') (refs ! k) \<and>
                 (\<forall>j<k. \<not> accepted net_hotlink j clean_url (asc ''001.jpg'') (refs ! j)) \<and>
                 gets evs = map (Pair clean_url) (take (Suc k) refs)
          else gets evs = map (Pair clean_url) refs \<and>
               (\<forall>k<3. \<not> accepted net_hotlink k clean_url (asc ''001.jpg'') (refs ! k))) \<and>
         (distinct refs \<longleftrightarrow>
            Some (asc ''https://manga.example.org/ch1'') \<noteq> None \<and>
            Some (asc ''https://manga.example.org/ch1'') \<noteq> Some [] \<and>
            Some (asc ''https://manga.example.org/ch1'') \<noteq> Some root_domain)))
   \<and> download_image net_hotlink (asc '' https://cdn.example.com/p/001.jpg'') (asc ''001.jpg'')
          (Some (asc ''https://manga.example.org/ch1'')) =
       Inr (True, [Get (asc ''https://cdn.example.com/p/001.jpg'') (asc ''https://manga.example.org/ch1''),
                   Get (asc ''https://cdn.example.com/p/001.jpg'') [],
                   Get (asc ''https://cdn.example.com/p/001.jpg'') (asc ''https://cdn.example.com/''),
                   Write (asc ''001.jpg'') (asc ''JPEG'')])"
proof -
  have h: "urlparse net_hotlink (sanitize_url (asc '' https://cdn.example.com/p/001.jpg'')) =
     Some ((asc ''https''), (asc ''cdn.example.com''))"
    using sample_url sample_clean_url by (simp add: net_hotlink_def)
  have e: "download_image net_hotlink (asc '' https://cdn.example.com/p/001.jpg'') (asc ''001.jpg'')
          (Some (asc ''https://manga.example.org/ch1'')) =
       Inr (True, [Get (asc ''https://cdn.example.com/p/001.jpg'') (asc ''https://manga.example.org/ch1''),
                   Get (asc ''https://cdn.example.com/p/001.jpg'') [],
                   Get (asc ''https://cdn.example.com/p/001.jpg'') (asc ''https://cdn.example.com/''),
                   Write (asc ''001.jpg'') (asc ''JPEG'')])"
    using h unfolding download_image_def Let_def sample_clean_url
    by (simp add: strategies_def attempt_def net_hotlink_def)
  show ?thesis
    using h e
      download_image_strategies[OF h, of "(asc ''001.jpg'')" "Some (asc ''https://manga.example.org/ch1'')"]
    by blast
qed

text \<open>
  Without a referer hint the first two strategies send the same empty \<^verbatim>\<open>Referer\<close>:
  the three header values of a failed call are not distinct.
\<close>

theorem download_image_no_hint_counterexample:
  "download_image net_down (asc ''https://cdn.example.com/p/001.jpg'') (asc ''001.jpg'') None =
     Inr (False, [Get (asc ''https://cdn.example.com/p/001.jpg'') [],
                  Get (asc ''https://cdn.example.com/p/001.jpg'') [],
                  Get (asc ''https://cdn.example.com/p/001.jpg'') (asc ''https://cdn.example.com/'')])
   \<and> \<not> distinct (map snd (gets (snd (projr
        (download_image net_down (asc ''https://cdn.example.com/p/001.jpg'') (asc ''001.jpg'') None)))))"
proof -
  have h: "urlparse net_down (asc ''https://cdn.example.com/p/001.jpg'') =
     Some ((asc ''https''), (asc ''cdn.example.com''))"
    using sample_url by (simp add: net_down_def)
  have e: "download_image net_down (asc ''https://cdn.example.com/p/001.jpg'') (asc ''001.jpg'') None =
     Inr (False, [Get (asc ''https://cdn.example.com/p/001.jpg'') [],
                  Get (asc ''https://cdn.example.com/p/001.jpg'') [],
                  Get (asc ''https://cdn.example.com/p/001.jpg'') (asc ''https://cdn.example.com/'')])"
    using h unfolding download_image_def Let_def sample_clean_url
    by (simp add: strategies_def attempt_def net_down_def)
  show ?thesis unfolding e by simp
qed

subsection \<open>The CBZ packager\<close>












subsection \<open>The PDF packager\<close>

lemma map_of_put: "map_of (put fs k v) k' = (if k' = k then Some v else map_of fs k')"
  by (induction fs k v rule: put.induct) auto



lemma lower_append: "ascii_lower (a @ b) = ascii_lower a @ ascii_lower b"
  by (simp add: ascii_lower_def)





















subsection \<open>The site resolver\<close>

lemma finalize_target_consults:
  "c \<in> set (snd (finalize_target env cfg key)) \<Longrightarrow> (\<exists>k. c = Lookup k) \<or> (\<exists>d t. c = Hunt d t)"
  by (auto simp: finalize_target_def Let_def split: option.splits if_splits)

lemma fuzzy_search_no_match:
  assumes "\<And>item. item \<in> set cfg \<Longrightarrow> score_of env clean_input item \<le> 40"
  shows "fst (fuzzy_search env clean_input cfg) = Inr [] \<and>
         (\<forall>c \<in> set (snd (fuzzy_search env clean_input cfg)). \<exists>a b. c = Ratio a b)"
  using assms
proof (induction cfg)
  case Nil
  then show ?case by simp
next
  case (Cons item rest)
  obtain key data where item: "item = (key, data)" by (cases item)
  have s: "\<not> score_of env clean_input (key, data) > 40"
    using Cons.prems[of item] item by simp
  have ih: "fst (fuzzy_search env clean_input rest) = Inr [] \<and>
         (\<forall>c \<in> set (snd (fuzzy_search env clean_input rest)). \<exists>a b. c = Ratio a b)"
    using Cons.IH Cons.prems by simp
  show ?case using s ih unfolding item
    by (cases "fuzzy_search env clean_input rest") (auto simp: Let_def)
qed

text \<open>
  Claim C7, as amended. An input that starts with the four characters \<^verbatim>\<open>http\<close> is returned
  unchanged, and nothing is consulted: not the table, not the fuzzy search, not the mirror
  hunter, not the user. The test is \<^verbatim>\<open>startswith("http")\<close>, not a test for a URL scheme.
\<close>

theorem resolve_target_http:
  assumes "startswith input_str (asc ''http'')"
  shows "resolve_target env cfg input_str = (Inr (Some input_str), [])"
  using assms by (simp add: resolve_target_def)

theorem resolve_target_http_witness:
  "startswith (asc ''https://read.example.org/manga/one-piece/'') (asc ''http'') \<and>
   resolve_target env_default [((asc ''one-piece''), one_piece)]
       (asc ''https://read.example.org/manga/one-piece/'') =
     (Inr (Some (asc ''https://read.example.org/manga/one-piece/'')), [])"
proof -
  have h: "startswith (asc ''https://read.example.org/manga/one-piece/'') (asc ''http'')"
    by (simp add: startswith_def)
  from resolve_target_http[OF h] h show ?thesis by blast
qed

text \<open>
  An input with the URL scheme \<^verbatim>\<open>ftp\<close>: the table is searched, two ratios are computed
  (0.75 and 0.67), the user is asked, and with the default answer the URL of the site is
  returned in place of the input.
\<close>

theorem resolve_target_ftp_counterexample:
  "resolve_target env_default [((asc ''one-piece''), one_piece)] (asc ''ftp://one-piece'') =
     (Inr (Some (asc ''https://read.example.org/manga/one-piece/'')),
      [Lookup (asc ''ftp://one-piece''), Ratio (asc ''ftp://one-piece'') (asc ''one-piece''),
       Ratio (asc ''ftp://one-piece'') (asc ''one piece''), Prompt [(asc ''One Piece'')], Lookup (asc ''one-piece'')])"
  by code_simp

text \<open>
  Claim C5, as amended. When the normalised input (percent-decoded, stripped, lowercased)
  is a key of the table, no similarity ratio is computed and the user is not asked. When
  the input moreover does not start with \<^verbatim>\<open>http\<close>, the result is the finalisation of that
  key; when it does, the input is returned as a URL and the key is not finalised.
\<close>

theorem resolve_target_exact_key:
  assumes "map_of cfg (lower env (strip (unquote env input_str))) = Some s"
  shows "(\<forall>c \<in> set (snd (resolve_target env cfg input_str)).
            (\<exists>k. c = Lookup k) \<or> (\<exists>d t. c = Hunt d t))
       \<and> (if startswith input_str (asc ''http'')
          then resolve_target env cfg input_str = (Inr (Some input_str), [])
          else resolve_target env cfg input_str =
                 (fst (finalize_target env cfg (lower env (strip (unquote env input_str)))),
                  Lookup (lower env (strip (unquote env input_str))) #
                  snd (finalize_target env cfg (lower env (strip (unquote env input_str))))))"
proof (cases "startswith input_str (asc ''http'')")
  case True
  then show ?thesis by (simp add: resolve_target_def)
next
  case False
  have r: "resolve_target env cfg input_str =
                 (fst (finalize_target env cfg (lower env (strip (unquote env input_str)))),
                  Lookup (lower env (strip (unquote env input_str))) #
                  snd (finalize_target env cfg (lower env (strip (unquote env input_str)))))"
    using False assms by (simp add: resolve_target_def Let_def case_prod_unfold)
  show ?thesis using False r finalize_target_consults[of _ env cfg] by auto
qed

theorem resolve_target_exact_key_witness:
  "map_of [((asc ''one-piece''), one_piece)] (lower env_default (strip (unquote env_default (asc ''One-Piece '')))) = Some one_piece
   \<and> resolve_target env_default [((asc ''one-piece''), one_piece)] (asc ''One-Piece '') =
       (Inr (Some (asc ''https://read.example.org/manga/one-piece/'')),
        [Lookup (asc ''one-piece''), Lookup (asc ''one-piece'')])"
proof -
  have n: "lower env_default (strip (unquote env_default (asc ''One-Piece ''))) = (asc ''one-piece'')"
    by (simp add: env_default_def ascii_lower_def ascii_lower_char_def strip_def is_space_def)
  have h: "map_of [((asc ''one-piece''), one_piece)] (lower env_default (strip (unquote env_default (asc ''One-Piece '')))) =
      Some one_piece"
    unfolding n by simp
  have f: "finalize_target env_default [((asc ''one-piece''), one_piece)] (asc ''one-piece'') =
      (Inr (Some (asc ''https://read.example.org/manga/one-piece/'')), [Lookup (asc ''one-piece'')])"
    by (simp add: finalize_target_def one_piece_def env_default_def)
  have nh: "\<not> startswith (asc ''One-Piece '') (asc ''http'')" by (simp add: startswith_def)
  note t = resolve_target_exact_key[OF h]
  from t nh have "resolve_target env_default [((asc ''one-piece''), one_piece)] (asc ''One-Piece '') =
       (Inr (Some (asc ''https://read.example.org/manga/one-piece/'')),
        [Lookup (asc ''one-piece''), Lookup (asc ''one-piece'')])"
    unfolding n f by simp
  with t h show ?thesis by simp
qed

text \<open>
  A table with a key that starts with \<^verbatim>\<open>http\<close>: the input equal to that key is returned
  as it is, while the finalisation of the key would give the URL of the site.
\<close>

theorem resolve_target_http_key_counterexample:
  "map_of [((asc ''httpx''), one_piece)] (lower env_default (strip (unquote env_default (asc ''httpx'')))) = Some one_piece
   \<and> resolve_target env_default [((asc ''httpx''), one_piece)] (asc ''httpx'') = (Inr (Some (asc ''httpx'')), [])
   \<and> fst (finalize_target env_default [((asc ''httpx''), one_piece)] (asc ''httpx'')) =
       Inr (Some (asc ''https://read.example.org/manga/one-piece/''))"
  by (simp add: resolve_target_def startswith_def finalize_target_def one_piece_def
      env_default_def ascii_lower_def ascii_lower_char_def strip_def is_space_def)

text \<open>
  Claim C6, as amended. For an input that does not start with \<^verbatim>\<open>http\<close>, whose normalised
  form is not a key, and for which every entry of the table has a score of at most 40 (100
  times the larger of the ratios against the key and against the lowercased name), the
  resolver returns the raw input unchanged: no error, no prompt. The run then goes on
  after the resolution exactly when the input is not the empty string, since
  \<^verbatim>\<open>_download_manga_async\<close> stops on \<^verbatim>\<open>not url\<close>.
\<close>

theorem resolve_target_no_candidate:
  assumes "\<not> startswith input_str (asc ''http'')"
    and "map_of cfg (lower env (strip (unquote env input_str))) = None"
    and "\<And>item. item \<in> set cfg \<Longrightarrow>
           score_of env (lower env (strip (unquote env input_str))) item \<le> 40"
  shows "fst (resolve_target env cfg input_str) = Inr (Some input_str)
       \<and> (\<forall>c \<in> set (snd (resolve_target env cfg input_str)).
            (\<exists>k. c = Lookup k) \<or> (\<exists>a b. c = Ratio a b))
       \<and> (run_continues (fst (resolve_target env cfg input_str)) \<longleftrightarrow> input_str \<noteq> [])"
proof -
  let ?ci = "lower env (strip (unquote env input_str))"
  obtain r evs where fs: "fuzzy_search env ?ci cfg = (r, evs)"
    by (cases "fuzzy_search env ?ci cfg")
  have r: "r = Inr []" and e: "\<forall>c \<in> set evs. \<exists>a b. c = Ratio a b"
    using fuzzy_search_no_match[of cfg env ?ci, OF assms(3)] fs by simp_all
  have "resolve_target env cfg input_str = (Inr (Some input_str), Lookup ?ci # evs)"
    using assms(1,2) fs r by (simp add: resolve_target_def Let_def)
  then show ?thesis using e by (auto simp: run_continues_def)
qed

lemma score_zzz: "score_of env_default (asc ''zzz'') ((asc ''one-piece''), one_piece) = 0"
  by code_simp

theorem resolve_target_no_candidate_witness:
  "\<not> startswith (asc ''zzz'') (asc ''http'')
   \<and> map_of [((asc ''one-piece''), one_piece)] (lower env_default (strip (unquote env_default (asc ''zzz'')))) = None
   \<and> score_of env_default (lower env_default (strip (unquote env_default (asc ''zzz'')))) ((asc ''one-piece''), one_piece) = 0
   \<and> fst (resolve_target env_default [((asc ''one-piece''), one_piece)] (asc ''zzz'')) = Inr (Some (asc ''zzz''))
   \<and> run_continues (fst (resolve_target env_default [((asc ''one-piece''), one_piece)] (asc ''zzz'')))"
proof -
  have n: "lower env_default (strip (unquote env_default (asc ''zzz''))) = (asc ''zzz'')"
    by (simp add: env_default_def ascii_lower_def ascii_lower_char_def strip_def is_space_def)
  have h1: "\<not> startswith (asc ''zzz'') (asc ''http'')" by (simp add: startswith_def)
  have h2: "map_of [((asc ''one-piece''), one_piece)] (lower env_default (strip (unquote env_default (asc ''zzz'')))) = None"
    unfolding n by simp
  have h3: "score_of env_default (lower env_default (strip (unquote env_default (asc ''zzz'')))) item \<le> 40"
    if "item \<in> set [((asc ''one-piece''), one_piece)]" for item
    using that score_zzz unfolding n by simp
  note t = resolve_target_no_candidate[OF h1 h2 h3]
  show ?thesis using t h1 h2 score_zzz unfolding n by (simp add: run_continues_def)
qed

text \<open>
  The empty input has no candidate either: the resolver returns it unchanged, and the run
  stops at the resolution.
\<close>

theorem resolve_target_empty_counterexample:
  "\<not> startswith [] (asc ''http'')
   \<and> map_of [((asc ''one-piece''), one_piece)] (lower env_default (strip (unquote env_default []))) = None
   \<and> score_of env_default (lower env_default (strip (unquote env_default []))) ((asc ''one-piece''), one_piece) = 0
   \<and> resolve_target env_default [((asc ''one-piece''), one_piece)] [] =
       (Inr (Some []), [Lookup [], Ratio [] (asc ''one-piece''), Ratio [] (asc ''one piece'')])
   \<and> \<not> run_continues (fst (resolve_target env_default [((asc ''one-piece''), one_piece)] []))"
  by code_simp

subsection \<open>The tree of the disk\<close>


lemma put_put: "put (put xs k a) k b = put xs k b"
  by (induction xs k a rule: put.induct) auto









text \<open>The directory at a path after an update there, and the files and directories below it.\<close>

lemma subdir_update_at:
  "subdir_at t p = Some d \<Longrightarrow> subdir_at (update_at t p f) (p @ q) = subdir_at (f d) q"
proof (induction t p f rule: update_at.induct)
  case (1 d' f)
  then show ?case by simp
next
  case (2 fs ds n p f)
  then show ?case by (auto simp: map_of_put split: option.splits)
qed



lemma update_at_twice:
  "update_at (update_at t p f) p g = update_at t p (\<lambda>d. g (f d))"
proof (induction t p f rule: update_at.induct)
  case (1 d f)
  then show ?case by simp
next
  case (2 fs ds n p f)
  then show ?case by (auto simp: map_of_put put_put split: option.splits)
qed


text \<open>
  Writing a file changes no directory beside it, and the file is there afterwards;
  removing a directory leaves the files beside it.
\<close>

lemma write_file_snoc:
  "write_file t (p @ [f]) c = update_at t p (\<lambda>d. Dir (put (files d) f c) (subdirs d))"
  by (simp add: write_file_def)



lemma subdir_write_file_parent:
  "subdir_at t p \<noteq> None \<Longrightarrow> subdir_at (write_file t (p @ [f]) c) p \<noteq> None"
  unfolding write_file_snoc using subdir_update_at[of t p _ _ "[]"] by auto


lemma write_file_twice:
  "write_file (write_file t (p @ [f]) a) (p @ [f]) b = write_file t (p @ [f]) b"
  unfolding write_file_snoc by (simp add: update_at_twice put_put)



subsection \<open>The orchestrator\<close>



























end
